theory Spec2Isabelle
  imports Main "HOL-Library.Sublist"
begin

section \<open>The Go library functions used by the processor\<close>

text \<open>
  A Go \<^verbatim>\<open>string\<close> is a sequence of bytes; it is modelled as \<^typ>\<open>string\<close>, a list of
  8-bit characters.

  \<^verbatim>\<open>strings.Contains(s, substr)\<close> reports whether \<open>substr\<close> occurs in \<open>s\<close> as a contiguous
  run of bytes. The search tries every start position from the left.
\<close>

fun strings_Contains :: "string \<Rightarrow> string \<Rightarrow> bool" where
  "strings_Contains [] substr = (substr = [])"
| "strings_Contains (c # s) substr = (prefix substr (c # s) \<or> strings_Contains s substr)"

text \<open>
  \<^verbatim>\<open>strings.Join(elems, sep)\<close>: the empty string for no element, the element itself for
  one, otherwise the elements with \<open>sep\<close> between each two.
\<close>

fun strings_Join :: "string list \<Rightarrow> string \<Rightarrow> string" where
  "strings_Join [] sep = []"
| "strings_Join [a] sep = a"
| "strings_Join (a # b # elems) sep = a @ sep @ strings_Join (b # elems) sep"

text \<open>
  \<^verbatim>\<open>strings.ToLower\<close> lower-cases rune by rune through the Unicode tables of Go's library:
  it decodes UTF-8, so that for instance the two bytes of U+0130 become the one byte
  \<^verbatim>\<open>i\<close>. The tables are not part of this development. Every definition that calls
  \<^verbatim>\<open>strings.ToLower\<close> therefore takes the function as its parameter \<open>ToLower\<close>, and a
  theorem that needs to know a value of it assumes \<open>ascii_lowering ToLower\<close>, which states
  what Go's function does with ASCII bytes (bytes below 128, each a rune of its own):

  \<^item> on a text of ASCII bytes it maps \<^verbatim>\<open>'A'..'Z'\<close> (65..90) to \<^verbatim>\<open>'a'..'z'\<close> by adding 32
    and leaves every other byte as it is;
  \<^item> a run of ASCII bytes anywhere in a text is lower-cased in that way where it stands,
    whatever bytes surround it.

  Nothing is assumed about what it does with the other bytes.
\<close>

definition lower_byte :: "char \<Rightarrow> char" where
  "lower_byte c =
     (if (65::int) \<le> of_char c \<and> of_char c \<le> (90::int) then char_of (of_char c + (32::int)) else c)"

definition ascii :: "string \<Rightarrow> bool" where
  "ascii s = list_all (\<lambda>c. of_char c < (128::int)) s"

definition ascii_lowering :: "(string \<Rightarrow> string) \<Rightarrow> bool" where
  "ascii_lowering ToLower =
     ((\<forall>s. ascii s \<longrightarrow> ToLower s = map lower_byte s)
      \<and> (\<forall>ps a ss. ascii a \<longrightarrow> sublist (map lower_byte a) (ToLower (ps @ a @ ss))))"

section \<open>The syntax tree as \<^verbatim>\<open>getDoc\<close> reads it\<close>

text \<open>
  \<^verbatim>\<open>token.Pos\<close> is an integer offset into the file set; \<^verbatim>\<open>fset.Position(pos)\<close> resolves it
  to a \<^verbatim>\<open>token.Position\<close> with file name, offset, line and column. Of \<^verbatim>\<open>ast.File\<close> the
  function reads \<^verbatim>\<open>Imports\<close> (the position of each import spec), \<^verbatim>\<open>Comments\<close> (each
  group with its start position \<^verbatim>\<open>g.Pos()\<close> and its text \<^verbatim>\<open>g.Text()\<close>) and \<^verbatim>\<open>End()\<close>.
\<close>

type_synonym token_Pos = int

record token_Position =
  Filename :: string
  Offset :: int
  Line :: int
  Column :: int

type_synonym token_FileSet = "token_Pos \<Rightarrow> token_Position"

record ast_Ident =
  NamePos :: token_Pos
  ident_Name :: string

record ast_Decl =
  decl_Pos :: token_Pos
  decl_End :: token_Pos

record ast_ImportSpec =
  imp_Pos :: token_Pos
  imp_Path :: string

record ast_CommentGroup =
  cg_Pos :: token_Pos
  cg_Text :: string

record ast_File =
  Name :: ast_Ident
  Decls :: "ast_Decl list"
  Imports :: "ast_ImportSpec list"
  Comments :: "ast_CommentGroup list"

text \<open>
  \<^verbatim>\<open>f.End()\<close> of \<^verbatim>\<open>go/ast\<close> is not the end of the file: it is the end of the last
  declaration, and the end of the package name when the file has no declaration.
\<close>

definition ident_End :: "ast_Ident \<Rightarrow> token_Pos" where
  "ident_End x = NamePos x + int (length (ident_Name x))"

definition ast_File_End :: "ast_File \<Rightarrow> token_Pos" where
  "ast_File_End f =
     (if length (Decls f) > 0 then decl_End (Decls f ! (length (Decls f) - 1))
      else ident_End (Name f))"

section \<open>The generated-file classifier\<close>

definition genCodeGenerated :: string where
  "genCodeGenerated = ''code generated''"

definition genDoNotEdit :: string where
  "genDoNotEdit = ''do not edit''"

definition genAutoFile :: string where
  "genAutoFile = ''autogenerated file''"

definition markers :: "string list" where
  "markers = [genCodeGenerated, genDoNotEdit, genAutoFile]"

text \<open>The loop \<^verbatim>\<open>for _, marker := range markers\<close>, which returns true at the first marker found.\<close>

fun markers_loop :: "string \<Rightarrow> string list \<Rightarrow> bool" where
  "markers_loop doc [] = False"
| "markers_loop doc (marker # rest) =
     (if strings_Contains doc marker then True else markers_loop doc rest)"

definition isGeneratedFileByComment :: "(string \<Rightarrow> string) \<Rightarrow> string \<Rightarrow> bool" where
  "isGeneratedFileByComment ToLower doc = markers_loop (ToLower doc) markers"

text \<open>
  The loop \<^verbatim>\<open>for _, g := range f.Comments\<close> of \<^verbatim>\<open>getDoc\<close>; \<open>neededComments\<close> is the slice
  the loop appends to.
\<close>

fun comments_loop ::
  "token_FileSet \<Rightarrow> token_Pos \<Rightarrow> ast_CommentGroup list \<Rightarrow> string list \<Rightarrow> string list" where
  "comments_loop fset importPos [] neededComments = neededComments"
| "comments_loop fset importPos (g # gs) neededComments =
     (let pos = cg_Pos g;
          filePos = fset pos;
          text = cg_Text g;
          isCgoGenerated = (strings_Contains text ''Created by cgo''
                            \<or> strings_Contains text ''Code generated by cmd/cgo'');
          isAllowed = (pos < importPos \<and> Column filePos = 1 \<and> \<not> isCgoGenerated)
      in if isAllowed then comments_loop fset importPos gs (neededComments @ [text])
         else comments_loop fset importPos gs neededComments)"

definition getDoc :: "ast_File \<Rightarrow> token_FileSet \<Rightarrow> string \<Rightarrow> string" where
  "getDoc f fset filePath =
     (let importPos = (if length (Imports f) \<noteq> 0 then imp_Pos (Imports f ! 0) else ast_File_End f);
          neededComments = comments_loop fset importPos (Comments f) []
      in if length neededComments = 0 then [] else strings_Join neededComments [CHR 0x0A])"

section \<open>Issues and the parsed-source cache\<close>

text \<open>
  Modelled from the spec: \<^verbatim>\<open>result.Issue\<close> (package \<^verbatim>\<open>pkg/result\<close>) is not among the
  sources. An issue is one finding: the linter it comes from, its message and its position
  (file path, line, column); \<^verbatim>\<open>i.FilePath()\<close> is the file name of the position and may be
  empty.
\<close>

record Issue =
  FromLinter :: string
  Text :: string
  Pos :: token_Position

definition FilePath :: "Issue \<Rightarrow> string" where
  "FilePath i = Filename (Pos i)"

text \<open>
  Modelled from the spec: \<^verbatim>\<open>astcache.File\<close> and \<^verbatim>\<open>astcache.Cache.GetOrParse\<close> (package
  \<^verbatim>\<open>pkg/lint/astcache\<close>) are not among the sources. A parsed file carries the syntax tree
  \<^verbatim>\<open>F\<close>, the position table \<^verbatim>\<open>Fset\<close> and an optional parse error \<^verbatim>\<open>Err\<close>. Repeated
  \<^verbatim>\<open>GetOrParse\<close> calls with one path return the same (possibly error-bearing) result, so the
  cache is the function from a path to that result.
\<close>

record astcache_File =
  F :: ast_File
  Fset :: token_FileSet
  Err :: "string option"

type_synonym astcache_Cache = "string \<Rightarrow> astcache_File"

section \<open>The Autogenerated-Exclude processor\<close>

record ageFileSummary =
  isGenerated :: bool

text \<open>
  The two errors that \<^verbatim>\<open>getOrCreateFileSummary\<close> builds with \<^verbatim>\<open>fmt.Errorf\<close>:
  \<^verbatim>\<open>"no file path for issue"\<close> and \<^verbatim>\<open>"can't parse file %s: %s"\<close> with the path and the
  parse error.
\<close>

datatype error = NoFilePathForIssue | CantParseFile string string

text \<open>
  The calls that the processor makes to its collaborators, in order. The source keeps no
  such record; the model does, so that "at most once" can be stated.
\<close>

datatype call = GetOrParse string | Classify string

text \<open>
  \<^verbatim>\<open>ageFileSummaryCache\<close> is a \<^verbatim>\<open>map[string]*ageFileSummary\<close>: the map holds pointers, and
  \<^verbatim>\<open>getOrCreateFileSummary\<close> writes \<^verbatim>\<open>fs.isGenerated\<close> through the pointer after it has
  stored the pointer in the map. A pointer is an index into \<open>summaries\<close>, the list of the
  \<^verbatim>\<open>ageFileSummary\<close> objects allocated so far; \<^verbatim>\<open>&ageFileSummary{}\<close> appends a zero value
  and yields its index. The state of one processor instance is that store, the two fields
  of the struct \<^verbatim>\<open>AutogeneratedExclude\<close> and the record of calls.
\<close>

type_synonym addr = nat

record AutogeneratedExclude =
  summaries :: "ageFileSummary list"
  fileSummaryCache :: "string \<rightharpoonup> addr"
  astCache :: astcache_Cache
  calls :: "call list"

definition NewAutogeneratedExclude :: "astcache_Cache \<Rightarrow> AutogeneratedExclude" where
  "NewAutogeneratedExclude c =
     \<lparr>summaries = [], fileSummaryCache = Map.empty, astCache = c, calls = []\<rparr>"

definition getOrCreateFileSummary ::
  "(string \<Rightarrow> string) \<Rightarrow> Issue \<Rightarrow> AutogeneratedExclude
     \<Rightarrow> (error + addr) \<times> AutogeneratedExclude" where
  "getOrCreateFileSummary ToLower i p =
     (case fileSummaryCache p (FilePath i) of
        Some fs \<Rightarrow> (Inr fs, p)
      | None \<Rightarrow>
          (let fs = length (summaries p);
               p1 = p\<lparr>summaries := summaries p @ [\<lparr>isGenerated = False\<rparr>]\<rparr>;
               p2 = p1\<lparr>fileSummaryCache := (fileSummaryCache p1)(FilePath i \<mapsto> fs)\<rparr>
           in if FilePath i = [] then (Inl NoFilePathForIssue, p2)
              else
                (let f = astCache p2 (FilePath i);
                     p3 = p2\<lparr>calls := calls p2 @ [GetOrParse (FilePath i)]\<rparr>
                 in case Err f of
                      Some e \<Rightarrow> (Inl (CantParseFile (FilePath i) e), p3)
                    | None \<Rightarrow>
                        (let doc = getDoc (F f) (Fset f) (FilePath i);
                             p4 = p3\<lparr>summaries := (summaries p3)
                                      [fs := (summaries p3 ! fs)
                                               \<lparr>isGenerated := isGeneratedFileByComment ToLower doc\<rparr>],
                                    calls := calls p3 @ [Classify (FilePath i)]\<rparr>
                         in (Inr fs, p4)))))"

text \<open>
  Go's \<^verbatim>\<open>(false, err)\<close> is \<open>Inl err\<close>, and \<^verbatim>\<open>(b, nil)\<close> is \<open>Inr b\<close>. The pointer that
  \<^verbatim>\<open>getOrCreateFileSummary\<close> returns is either the one just allocated or one read from the
  map, and every pointer in the map is allocated (invariant \<open>cache_ok\<close> below), so the read
  \<^verbatim>\<open>fs.isGenerated\<close> is always within \<open>summaries\<close>.
\<close>

definition shouldPassIssue ::
  "(string \<Rightarrow> string) \<Rightarrow> Issue \<Rightarrow> AutogeneratedExclude
     \<Rightarrow> (error + bool) \<times> AutogeneratedExclude" where
  "shouldPassIssue ToLower i p =
     (case getOrCreateFileSummary ToLower i p of
        (Inl err, p') \<Rightarrow> (Inl err, p')
      | (Inr fs, p') \<Rightarrow> (Inr (\<not> isGenerated (summaries p' ! fs)), p'))"

text \<open>
  Modelled from the spec: \<^verbatim>\<open>filterIssuesErr\<close> (a helper of package \<^verbatim>\<open>processors\<close>) is not
  among the sources. It iterates the issues in input order, evaluates the per-issue
  boolean-or-error predicate, keeps the issues where the predicate is true in their
  relative order, and aborts the whole operation on the first predicate error. The
  predicate is a method of the processor, so the instance is threaded through the loop.
\<close>

fun filterIssuesErr_loop ::
  "Issue list \<Rightarrow> (Issue \<Rightarrow> 's \<Rightarrow> (error + bool) \<times> 's) \<Rightarrow> Issue list \<Rightarrow> 's
     \<Rightarrow> (error + Issue list) \<times> 's" where
  "filterIssuesErr_loop [] pred retIssues s = (Inr retIssues, s)"
| "filterIssuesErr_loop (i # issues) pred retIssues s =
     (case pred i s of
        (Inl err, s') \<Rightarrow> (Inl err, s')
      | (Inr ok, s') \<Rightarrow>
          if ok then filterIssuesErr_loop issues pred (retIssues @ [i]) s'
          else filterIssuesErr_loop issues pred retIssues s')"

text \<open>
  Modelled from the spec: \<^verbatim>\<open>filterIssuesErr\<close> itself starts the loop with no issue kept.
\<close>

definition filterIssuesErr ::
  "Issue list \<Rightarrow> (Issue \<Rightarrow> 's \<Rightarrow> (error + bool) \<times> 's) \<Rightarrow> 's \<Rightarrow> (error + Issue list) \<times> 's" where
  "filterIssuesErr issues pred s = filterIssuesErr_loop issues pred [] s"

definition Process ::
  "(string \<Rightarrow> string) \<Rightarrow> Issue list \<Rightarrow> AutogeneratedExclude
     \<Rightarrow> (error + Issue list) \<times> AutogeneratedExclude" where
  "Process ToLower issues p = filterIssuesErr issues (shouldPassIssue ToLower) p"

section \<open>The selection of comments, by the code and in the specification's words\<close>

text \<open>
  The cutoff that \<^verbatim>\<open>getDoc\<close> computes: the position of the first import if the file has
  one, otherwise \<^verbatim>\<open>f.End()\<close>.
\<close>

definition cutoff :: "ast_File \<Rightarrow> token_Pos" where
  "cutoff f = (case Imports f of [] \<Rightarrow> ast_File_End f | imp # _ \<Rightarrow> imp_Pos imp)"

text \<open>The compiler-injected C-interop boilerplate: text containing one of the two phrases.\<close>

definition is_cgo_boilerplate :: "string \<Rightarrow> bool" where
  "is_cgo_boilerplate text =
     (strings_Contains text ''Created by cgo'' \<or> strings_Contains text ''Code generated by cmd/cgo'')"

text \<open>
  A comment group is eligible for the code when it starts strictly before that cutoff,
  starts in column 1 and is not the boilerplate.
\<close>

definition eligible :: "ast_File \<Rightarrow> token_FileSet \<Rightarrow> ast_CommentGroup \<Rightarrow> bool" where
  "eligible f fset g =
     (cg_Pos g < cutoff f \<and> Column (fset (cg_Pos g)) = 1 \<and> \<not> is_cgo_boilerplate (cg_Text g))"

definition eligible_comments :: "ast_File \<Rightarrow> token_FileSet \<Rightarrow> ast_CommentGroup list" where
  "eligible_comments f fset = filter (eligible f fset) (Comments f)"

text \<open>
  The texts in order, separated by newline: the first text, and before each further text a
  newline.
\<close>

fun newline_separated :: "string list \<Rightarrow> string" where
  "newline_separated [] = []"
| "newline_separated (t # ts) = t @ concat (map (\<lambda>u. CHR 0x0A # u) ts)"

definition eligible_doc :: "ast_File \<Rightarrow> token_FileSet \<Rightarrow> string" where
  "eligible_doc f fset = newline_separated (map cg_Text (eligible_comments f fset))"

text \<open>
  The specification's words: the cutoff is the position of the first import if the file
  has one, otherwise end-of-file; a comment group is eligible when it starts strictly
  before the cutoff, in column 1, and is not the boilerplate; the doc is the texts of the
  eligible groups in order, separated by newline. The end of the file is the position
  after its last byte; the syntax tree does not hold it, so it is the argument \<open>eof\<close>.
\<close>

definition spec_cutoff :: "ast_File \<Rightarrow> token_Pos \<Rightarrow> token_Pos" where
  "spec_cutoff f eof = (case Imports f of [] \<Rightarrow> eof | imp # _ \<Rightarrow> imp_Pos imp)"

definition spec_eligible ::
  "ast_File \<Rightarrow> token_FileSet \<Rightarrow> token_Pos \<Rightarrow> ast_CommentGroup \<Rightarrow> bool" where
  "spec_eligible f fset eof g =
     (cg_Pos g < spec_cutoff f eof \<and> Column (fset (cg_Pos g)) = 1
      \<and> \<not> is_cgo_boilerplate (cg_Text g))"

definition spec_doc :: "ast_File \<Rightarrow> token_FileSet \<Rightarrow> token_Pos \<Rightarrow> string" where
  "spec_doc f fset eof =
     newline_separated (map cg_Text (filter (spec_eligible f fset eof) (Comments f)))"

section \<open>The states of a processor instance\<close>

text \<open>The classifier applied to a parsed file: stage A (\<^verbatim>\<open>getDoc\<close>), then stage B.\<close>

definition file_is_generated :: "(string \<Rightarrow> string) \<Rightarrow> astcache_File \<Rightarrow> string \<Rightarrow> bool" where
  "file_is_generated ToLower pf filePath =
     isGeneratedFileByComment ToLower (getDoc (F pf) (Fset pf) filePath)"

text \<open>
  The instance after a sequence of \<^verbatim>\<open>shouldPassIssue\<close> calls. Every state of an instance
  is of the form \<open>after_calls ToLower js (NewAutogeneratedExclude c)\<close>: the instance is
  created by \<^verbatim>\<open>NewAutogeneratedExclude\<close> and changed by \<^verbatim>\<open>getOrCreateFileSummary\<close> only,
  which is called by \<^verbatim>\<open>shouldPassIssue\<close> only, which \<^verbatim>\<open>Process\<close> calls issue by issue.
\<close>

fun after_calls ::
  "(string \<Rightarrow> string) \<Rightarrow> Issue list \<Rightarrow> AutogeneratedExclude \<Rightarrow> AutogeneratedExclude" where
  "after_calls ToLower [] p = p"
| "after_calls ToLower (j # js) p = after_calls ToLower js (snd (shouldPassIssue ToLower j p))"

text \<open>
  The value that the summary of a path holds once \<^verbatim>\<open>getOrCreateFileSummary\<close> has returned
  for that path: the classifier's answer when the path is not empty and the file parses,
  and the zero value \<open>False\<close> otherwise.
\<close>

definition summary_value :: "(string \<Rightarrow> string) \<Rightarrow> astcache_Cache \<Rightarrow> string \<Rightarrow> bool" where
  "summary_value ToLower c path =
     (path \<noteq> [] \<and> Err (c path) = None \<and> file_is_generated ToLower (c path) path)"

text \<open>
  The invariant of the summary cache: every pointer in the map is allocated, and the
  summary it points to holds the value above.
\<close>

definition cache_ok :: "(string \<Rightarrow> string) \<Rightarrow> AutogeneratedExclude \<Rightarrow> bool" where
  "cache_ok ToLower p =
     (\<forall>path fs. fileSummaryCache p path = Some fs \<longrightarrow>
        fs < length (summaries p) \<and>
        isGenerated (summaries p ! fs) = summary_value ToLower (astCache p) path)"

text \<open>
  The invariant of the record of calls: no call is recorded twice, and a path that was
  parsed or classified is in the map.
\<close>

definition calls_ok :: "AutogeneratedExclude \<Rightarrow> bool" where
  "calls_ok p =
     (distinct (calls p) \<and>
      (\<forall>path. GetOrParse path \<in> set (calls p) \<or> Classify path \<in> set (calls p)
         \<longrightarrow> fileSummaryCache p path \<noteq> None))"

section \<open>Example files\<close>

text \<open>
  The position table of a file, from the positions at which its second and further lines
  start; positions start at 1, as with a file of base 1 in a \<^verbatim>\<open>token.FileSet\<close>.
\<close>

fun locate :: "int \<Rightarrow> token_Pos \<Rightarrow> token_Pos list \<Rightarrow> token_Pos \<Rightarrow> token_Position" where
  "locate line start [] pos =
     \<lparr>Filename = [], Offset = pos - 1, Line = line, Column = pos - start + 1\<rparr>"
| "locate line start (next # starts) pos =
     (if pos < next
      then \<lparr>Filename = [], Offset = pos - 1, Line = line, Column = pos - start + 1\<rparr>
      else locate (line + 1) next starts pos)"

definition lines_fset :: "token_Pos list \<Rightarrow> token_FileSet" where
  "lines_fset starts = locate 1 1 starts"

text \<open>
  The parse of the source file
  \<^verbatim>\<open>
  // <comment>

  package <pkg>

  import "fmt"

  func F() { fmt.Println() }
  \<close>
  in which the first line is indented by \<open>indent\<close> blanks. The text of the comment group is
  the comment without its marker, terminated by a newline, as \<^verbatim>\<open>g.Text()\<close> returns it;
  the import spec is at the position of its path.
\<close>

definition header_file :: "int \<Rightarrow> string \<Rightarrow> string \<Rightarrow> astcache_File" where
  "header_file indent comment pkg =
     (let a = indent + 3 + int (length comment);
          k = int (length pkg)
      in \<lparr>F = \<lparr>Name = \<lparr>NamePos = a + 11, ident_Name = pkg\<rparr>,
               Decls = [\<lparr>decl_Pos = a + k + 13, decl_End = a + k + 25\<rparr>,
                        \<lparr>decl_Pos = a + k + 27, decl_End = a + k + 53\<rparr>],
               Imports = [\<lparr>imp_Pos = a + k + 20, imp_Path = ''fmt''\<rparr>],
               Comments = [\<lparr>cg_Pos = 1 + indent, cg_Text = comment @ [CHR 0x0A]\<rparr>]\<rparr>,
          Fset = lines_fset [a + 2, a + 3, a + k + 12, a + k + 13, a + k + 26, a + k + 27],
          Err = None\<rparr>)"

text \<open>
  The parse of the source file
  \<^verbatim>\<open>
  package trailing

  func F() {}

  // Code generated by hand. DO NOT EDIT.
  \<close>
  which has no import, one declaration that ends at position 30, and a comment in column 1
  at position 32; the file ends at position 72.
\<close>

definition trailing_go :: astcache_File where
  "trailing_go =
     \<lparr>F = \<lparr>Name = \<lparr>NamePos = 9, ident_Name = ''trailing''\<rparr>,
           Decls = [\<lparr>decl_Pos = 19, decl_End = 30\<rparr>],
           Imports = [],
           Comments = [\<lparr>cg_Pos = 32,
                        cg_Text = ''Code generated by hand. DO NOT EDIT.'' @ [CHR 0x0A]\<rparr>]\<rparr>,
      Fset = lines_fset [18, 19, 31, 32],
      Err = None\<rparr>"

definition trailing_go_eof :: token_Pos where
  "trailing_go_eof = 72"

text \<open>What the source cache returns for a file that it could not parse.\<close>

definition unparsed :: "string \<Rightarrow> astcache_File" where
  "unparsed e =
     \<lparr>F = \<lparr>Name = \<lparr>NamePos = 0, ident_Name = []\<rparr>, Decls = [], Imports = [], Comments = []\<rparr>,
      Fset = lines_fset [],
      Err = Some e\<rparr>"

text \<open>
  A source cache: \<^verbatim>\<open>gen.go\<close> with the header of a generator in column 1 before the import,
  \<^verbatim>\<open>hand.go\<close> with an ordinary package comment, \<^verbatim>\<open>cgo_wrap.go\<close> with the injected
  boilerplate, \<^verbatim>\<open>upper.go\<close> with the boilerplate in upper case, \<^verbatim>\<open>indent.go\<close> with a
  generator's phrase in column 3, \<^verbatim>\<open>dotted.go\<close> whose header spells EDIT with the letter
  U+0130 (bytes C4 B0), \<^verbatim>\<open>trailing.go\<close> as above, and \<^verbatim>\<open>bad.go\<close>, which does not parse.
  Every other path cannot be read.
\<close>

definition example_cache :: astcache_Cache where
  "example_cache path =
     (if path = ''gen.go''
        then header_file 0 ''Code generated by protoc-gen-go. DO NOT EDIT.'' ''gen''
      else if path = ''hand.go''
        then header_file 0 ''Package hand is written by hand.'' ''hand''
      else if path = ''cgo_wrap.go''
        then header_file 0 ''Created by cgo - DO NOT EDIT'' ''cgo_wrap''
      else if path = ''upper.go''
        then header_file 0 ''CREATED BY CGO - DO NOT EDIT'' ''upper''
      else if path = ''indent.go''
        then header_file 2 ''Code generated by hand. DO NOT EDIT.'' ''indent''
      else if path = ''dotted.go''
        then header_file 0 (''DO NOT ED'' @ [CHR 0xC4, CHR 0xB0] @ ''T'') ''dotted''
      else if path = ''trailing.go''
        then trailing_go
      else if path = ''bad.go''
        then unparsed ''expected declaration''
      else unparsed ''no such file'')"

definition issue_at :: "string \<Rightarrow> int \<Rightarrow> Issue" where
  "issue_at path line =
     \<lparr>FromLinter = ''golint'', Text = ''exported function should have comment'',
      Pos = \<lparr>Filename = path, Offset = 0, Line = line, Column = 1\<rparr>\<rparr>"

text \<open>
  An instance of \<open>ToLower\<close> for the examples. Like Go's function it lower-cases ASCII bytes
  and turns the two bytes of U+0130 into \<^verbatim>\<open>i\<close>; unlike Go's function it leaves every other
  byte as it is.
\<close>

fun example_ToLower :: "string \<Rightarrow> string" where
  "example_ToLower [] = []"
| "example_ToLower [c] = [lower_byte c]"
| "example_ToLower (c # d # s) =
     (if c = CHR 0xC4 \<and> d = CHR 0xB0 then CHR ''i'' # example_ToLower s
      else lower_byte c # example_ToLower (d # s))"

section \<open>Facts about the library functions\<close>

lemma strings_Contains_sublist: "strings_Contains s t \<longleftrightarrow> sublist t s"
  by (induction s) (auto simp: sublist_Cons_right)

lemma strings_Contains_iff: "strings_Contains s t \<longleftrightarrow> (\<exists>ps ss. s = ps @ t @ ss)"
  by (simp add: strings_Contains_sublist sublist_def)

lemma strings_Join_newline: "strings_Join ts [CHR 0x0A] = newline_separated ts"
  by (induction ts "[CHR 0x0A]" rule: strings_Join.induct) auto

lemma sublist_concat_sep:
  "t \<in> set ts \<Longrightarrow> sublist t (concat (map (\<lambda>u. c # u) ts))"
proof (induction ts)
  case Nil
  then show ?case by simp
next
  case (Cons x xs)
  show ?case
  proof (cases "t = x")
    case True
    have "concat (map (\<lambda>u. c # u) (x # xs)) = [c] @ t @ concat (map (\<lambda>u. c # u) xs)"
      using True by simp
    then show ?thesis unfolding sublist_def by blast
  next
    case False
    with Cons.prems have "t \<in> set xs" by simp
    then obtain ps ss where "concat (map (\<lambda>u. c # u) xs) = ps @ t @ ss"
      using Cons.IH unfolding sublist_def by blast
    then have "concat (map (\<lambda>u. c # u) (x # xs)) = ((c # x) @ ps) @ t @ ss" by simp
    then show ?thesis unfolding sublist_def by blast
  qed
qed

lemma sublist_newline_separated:
  assumes "t \<in> set ts" shows "sublist t (newline_separated ts)"
proof (cases ts)
  case Nil
  with assms show ?thesis by simp
next
  case (Cons x xs)
  show ?thesis
  proof (cases "t = x")
    case True
    then show ?thesis using Cons by simp
  next
    case False
    with assms Cons have "t \<in> set xs" by simp
    then obtain ps ss where "concat (map (\<lambda>u. CHR 0x0A # u) xs) = ps @ t @ ss"
      using sublist_concat_sep[of t xs "CHR 0x0A"] unfolding sublist_def by blast
    then have "newline_separated ts = (x @ ps) @ t @ ss" using Cons by simp
    then show ?thesis unfolding sublist_def by blast
  qed
qed

lemma ascii_append [simp]: "ascii (a @ b) \<longleftrightarrow> ascii a \<and> ascii b"
  by (simp add: ascii_def)

lemma ascii_lowering_ascii: "ascii_lowering L \<Longrightarrow> ascii s \<Longrightarrow> L s = map lower_byte s"
  by (simp add: ascii_lowering_def)

lemma ascii_lowering_part:
  assumes "ascii_lowering L" "ascii a" "sublist a doc"
  shows "sublist (map lower_byte a) (L doc)"
proof -
  from assms(3) obtain ps ss where "doc = ps @ a @ ss"
    unfolding sublist_def by blast
  with assms(1,2) show ?thesis by (simp add: ascii_lowering_def)
qed

text \<open>The byte map itself lower-cases ASCII bytes as \<open>ascii_lowering\<close> demands.\<close>

lemma ascii_lowering_byte_map: "ascii_lowering (map lower_byte)"
  unfolding ascii_lowering_def sublist_def by auto

text \<open>The instance for the examples lower-cases ASCII bytes as \<open>ascii_lowering\<close> demands.\<close>

lemma example_ToLower_ascii_Cons:
  "of_char c < (128::int) \<Longrightarrow> example_ToLower (c # s) = lower_byte c # example_ToLower s"
  by (cases s) auto

lemma example_ToLower_ascii_append:
  "ascii a \<Longrightarrow> example_ToLower (a @ ss) = map lower_byte a @ example_ToLower ss"
  by (induction a) (simp_all add: ascii_def example_ToLower_ascii_Cons)

lemma example_ToLower_before_ascii:
  "of_char x < (128::int) \<Longrightarrow>
   \<exists>ps'. example_ToLower (ps @ x # t) = ps' @ example_ToLower (x # t)"
proof (induction ps rule: example_ToLower.induct)
  case 1
  then show ?case by simp
next
  case (2 c)
  from 2 have "x \<noteq> CHR 0xB0" by auto
  then have "example_ToLower ([c] @ x # t) = [lower_byte c] @ example_ToLower (x # t)" by simp
  then show ?case by blast
next
  case (3 c d s)
  show ?case
  proof (cases "c = CHR 0xC4 \<and> d = CHR 0xB0")
    case True
    with 3 obtain ps' where "example_ToLower (s @ x # t) = ps' @ example_ToLower (x # t)"
      by blast
    with True have "example_ToLower ((c # d # s) @ x # t)
        = (CHR ''i'' # ps') @ example_ToLower (x # t)"
      by simp
    then show ?thesis by blast
  next
    case False
    with 3 obtain ps' where "example_ToLower ((d # s) @ x # t) = ps' @ example_ToLower (x # t)"
      by blast
    with False have "example_ToLower ((c # d # s) @ x # t)
        = (lower_byte c # ps') @ example_ToLower (x # t)"
      by auto
    then show ?thesis by blast
  qed
qed

lemma ascii_lowering_example: "ascii_lowering example_ToLower"
  unfolding ascii_lowering_def
proof (intro conjI allI impI)
  fix s assume "ascii s"
  then show "example_ToLower s = map lower_byte s"
    using example_ToLower_ascii_append[of s "[]"] by simp
next
  fix ps a ss assume a: "ascii a"
  show "sublist (map lower_byte a) (example_ToLower (ps @ a @ ss))"
  proof (cases a)
    case Nil
    then show ?thesis by simp
  next
    case (Cons x t)
    with a have x: "of_char x < (128::int)" by (simp add: ascii_def)
    then obtain ps' where "example_ToLower (ps @ x # (t @ ss)) = ps' @ example_ToLower (x # (t @ ss))"
      using example_ToLower_before_ascii by blast
    moreover have "example_ToLower (x # (t @ ss)) = map lower_byte a @ example_ToLower ss"
      using example_ToLower_ascii_append[OF a, of ss] Cons by simp
    ultimately have "example_ToLower (ps @ a @ ss)
        = ps' @ map lower_byte a @ example_ToLower ss"
      using Cons by simp
    then show ?thesis unfolding sublist_def by blast
  qed
qed

section \<open>Facts about the classifier\<close>

lemma markers_loop_iff: "markers_loop doc ms \<longleftrightarrow> (\<exists>m. m \<in> set ms \<and> strings_Contains doc m)"
  by (induction ms) auto

lemma isGeneratedFileByComment_iff:
  "isGeneratedFileByComment L doc \<longleftrightarrow>
     strings_Contains (L doc) ''code generated''
     \<or> strings_Contains (L doc) ''do not edit''
     \<or> strings_Contains (L doc) ''autogenerated file''"
  by (auto simp: isGeneratedFileByComment_def markers_loop_iff markers_def genCodeGenerated_def
      genDoNotEdit_def genAutoFile_def)

lemma isGeneratedFileByComment_ascii:
  "ascii_lowering L \<Longrightarrow> ascii doc \<Longrightarrow>
   isGeneratedFileByComment L doc = isGeneratedFileByComment (map lower_byte) doc"
  by (simp add: isGeneratedFileByComment_def ascii_lowering_ascii)

lemma not_generated_empty: "ascii_lowering L \<Longrightarrow> \<not> isGeneratedFileByComment L []"
  by (simp add: isGeneratedFileByComment_iff ascii_lowering_ascii ascii_def)

lemma isGeneratedFileByComment_part:
  assumes "ascii_lowering L" "ascii t" "sublist t doc" "isGeneratedFileByComment L t"
  shows "isGeneratedFileByComment L doc"
proof -
  have "sublist (map lower_byte t) (L doc)"
    using assms(1,2,3) by (rule ascii_lowering_part)
  moreover have "L t = map lower_byte t"
    using assms(1,2) by (rule ascii_lowering_ascii)
  ultimately have "sublist m (L t) \<Longrightarrow> sublist m (L doc)" for m
    using sublist_order.order_trans by metis
  with assms(4) show ?thesis
    unfolding isGeneratedFileByComment_iff strings_Contains_sublist by blast
qed

lemma importPos_cutoff:
  "(if length (Imports f) \<noteq> 0 then imp_Pos (Imports f ! 0) else ast_File_End f) = cutoff f"
  by (cases "Imports f") (auto simp: cutoff_def)

lemma comments_loop_filter:
  "comments_loop fset (cutoff f) gs acc = acc @ map cg_Text (filter (eligible f fset) gs)"
  by (induction gs arbitrary: acc) (auto simp: eligible_def is_cgo_boilerplate_def Let_def)

lemma getDoc_eligible_doc: "getDoc f fset filePath = eligible_doc f fset"
  unfolding getDoc_def importPos_cutoff
  by (simp add: comments_loop_filter eligible_doc_def eligible_comments_def strings_Join_newline
      Let_def)

text \<open>In a file with an import the code's cutoff is the specification's.\<close>

lemma spec_doc_with_import:
  assumes "Imports f \<noteq> []"
  shows "spec_doc f fset eof = getDoc f fset filePath"
proof -
  have "spec_cutoff f eof = cutoff f"
    using assms by (cases "Imports f") (simp_all add: spec_cutoff_def cutoff_def)
  then have "spec_eligible f fset eof = eligible f fset"
    by (intro ext) (simp add: spec_eligible_def eligible_def)
  then show ?thesis
    by (simp add: getDoc_eligible_doc eligible_doc_def eligible_comments_def spec_doc_def)
qed

lemma eligible_comment_generated:
  assumes "ascii_lowering L" "g \<in> set (Comments f)" "eligible f fset g"
    and "ascii t" "sublist t (cg_Text g)" "isGeneratedFileByComment L t"
  shows "isGeneratedFileByComment L (getDoc f fset filePath)"
proof -
  have "cg_Text g \<in> set (map cg_Text (eligible_comments f fset))"
    using assms(2,3) by (simp add: eligible_comments_def)
  then have "sublist (cg_Text g) (getDoc f fset filePath)"
    unfolding getDoc_eligible_doc eligible_doc_def by (rule sublist_newline_separated)
  with assms(5) have "sublist t (getDoc f fset filePath)"
    using sublist_order.order_trans by blast
  with assms(1,4) show ?thesis using assms(6) by (rule isGeneratedFileByComment_part)
qed

section \<open>Facts about the processor\<close>

text \<open>The four paths through getOrCreateFileSummary L, as seen by shouldPassIssue L.\<close>

lemma shouldPassIssue_hit:
  "fileSummaryCache p (FilePath i) = Some fs \<Longrightarrow>
   shouldPassIssue L i p = (Inr (\<not> isGenerated (summaries p ! fs)), p)"
  by (simp add: shouldPassIssue_def getOrCreateFileSummary_def)

lemma shouldPassIssue_no_path:
  "fileSummaryCache p (FilePath i) = None \<Longrightarrow> FilePath i = [] \<Longrightarrow>
   shouldPassIssue L i p =
     (Inl NoFilePathForIssue,
      p\<lparr>summaries := summaries p @ [\<lparr>isGenerated = False\<rparr>],
        fileSummaryCache := (fileSummaryCache p)([] \<mapsto> length (summaries p))\<rparr>)"
  by (simp add: shouldPassIssue_def getOrCreateFileSummary_def)

lemma shouldPassIssue_parse_error:
  "fileSummaryCache p (FilePath i) = None \<Longrightarrow> FilePath i \<noteq> [] \<Longrightarrow>
   Err (astCache p (FilePath i)) = Some e \<Longrightarrow>
   shouldPassIssue L i p =
     (Inl (CantParseFile (FilePath i) e),
      p\<lparr>summaries := summaries p @ [\<lparr>isGenerated = False\<rparr>],
        fileSummaryCache := (fileSummaryCache p)(FilePath i \<mapsto> length (summaries p)),
        calls := calls p @ [GetOrParse (FilePath i)]\<rparr>)"
  by (simp add: shouldPassIssue_def getOrCreateFileSummary_def)

lemma shouldPassIssue_classified:
  "fileSummaryCache p (FilePath i) = None \<Longrightarrow> FilePath i \<noteq> [] \<Longrightarrow>
   Err (astCache p (FilePath i)) = None \<Longrightarrow>
   shouldPassIssue L i p =
     (Inr (\<not> file_is_generated L (astCache p (FilePath i)) (FilePath i)),
      p\<lparr>summaries := summaries p @
          [\<lparr>isGenerated = file_is_generated L (astCache p (FilePath i)) (FilePath i)\<rparr>],
        fileSummaryCache := (fileSummaryCache p)(FilePath i \<mapsto> length (summaries p)),
        calls := calls p @ [GetOrParse (FilePath i), Classify (FilePath i)]\<rparr>)"
  by (simp add: shouldPassIssue_def getOrCreateFileSummary_def file_is_generated_def Let_def)

lemma shouldPassIssue_cases [case_names hit no_path parse_error classified]:
  obtains fs where "fileSummaryCache p (FilePath i) = Some fs"
  | "fileSummaryCache p (FilePath i) = None" "FilePath i = []"
  | e where "fileSummaryCache p (FilePath i) = None" "FilePath i \<noteq> []"
      "Err (astCache p (FilePath i)) = Some e"
  | "fileSummaryCache p (FilePath i) = None" "FilePath i \<noteq> []"
      "Err (astCache p (FilePath i)) = None"
  by (cases "fileSummaryCache p (FilePath i)"; cases "FilePath i = []";
      cases "Err (astCache p (FilePath i))") auto

lemma astCache_shouldPassIssue [simp]: "astCache (snd (shouldPassIssue L i p)) = astCache p"
  by (cases p i rule: shouldPassIssue_cases)
     (simp_all add: shouldPassIssue_hit shouldPassIssue_no_path[of p i L]
        shouldPassIssue_parse_error[of p i _ L] shouldPassIssue_classified[of p i L])

lemma cache_ok_extend:
  assumes ok: "cache_ok L p"
    and v: "v = summary_value L (astCache p) path"
    and p': "summaries p' = summaries p @ [\<lparr>isGenerated = v\<rparr>]"
      "fileSummaryCache p' = (fileSummaryCache p)(path \<mapsto> length (summaries p))"
      "astCache p' = astCache p"
  shows "cache_ok L p'"
  unfolding cache_ok_def
proof (intro allI impI)
  fix q fs
  assume q: "fileSummaryCache p' q = Some fs"
  show "fs < length (summaries p') \<and>
        isGenerated (summaries p' ! fs) = summary_value L (astCache p') q"
  proof (cases "q = path")
    case True
    with q p' have "fs = length (summaries p)" by simp
    with True v p' show ?thesis by simp
  next
    case False
    with q p' have "fileSummaryCache p q = Some fs" by simp
    with ok have "fs < length (summaries p)"
      and "isGenerated (summaries p ! fs) = summary_value L (astCache p) q"
      unfolding cache_ok_def by blast+
    with p' show ?thesis by (simp add: nth_append)
  qed
qed

lemma cache_ok_shouldPassIssue:
  assumes "cache_ok L p" shows "cache_ok L (snd (shouldPassIssue L i p))"
proof (cases p i rule: shouldPassIssue_cases)
  case (hit fs)
  with assms show ?thesis by (simp add: shouldPassIssue_hit)
next
  case no_path
  show ?thesis
    by (rule cache_ok_extend[OF assms, where path = "[]" and v = False])
       (simp_all add: shouldPassIssue_no_path[OF no_path] summary_value_def)
next
  case (parse_error e)
  show ?thesis
    by (rule cache_ok_extend[OF assms, where path = "FilePath i" and v = False])
       (simp_all add: shouldPassIssue_parse_error[OF parse_error] parse_error summary_value_def)
next
  case classified
  show ?thesis
    by (rule cache_ok_extend[OF assms, where path = "FilePath i"
          and v = "file_is_generated L (astCache p (FilePath i)) (FilePath i)"])
       (simp_all add: shouldPassIssue_classified[OF classified] classified summary_value_def)
qed

lemma calls_ok_shouldPassIssue:
  assumes "calls_ok p" shows "calls_ok (snd (shouldPassIssue L i p))"
proof (cases p i rule: shouldPassIssue_cases)
  case (hit fs)
  with assms show ?thesis by (simp add: shouldPassIssue_hit)
next
  case no_path
  with assms show ?thesis
    by (auto simp: shouldPassIssue_no_path[OF no_path] calls_ok_def)
next
  case (parse_error e)
  with assms show ?thesis
    by (auto simp: shouldPassIssue_parse_error[OF parse_error] calls_ok_def)
next
  case classified
  with assms show ?thesis
    by (auto simp: shouldPassIssue_classified[OF classified] calls_ok_def)
qed

lemma cache_ok_New: "cache_ok L (NewAutogeneratedExclude c)"
  by (simp add: cache_ok_def NewAutogeneratedExclude_def)

lemma calls_ok_New: "calls_ok (NewAutogeneratedExclude c)"
  by (simp add: calls_ok_def NewAutogeneratedExclude_def)

lemma astCache_after_calls [simp]: "astCache (after_calls L js p) = astCache p"
  by (induction js arbitrary: p) simp_all

lemma cache_ok_after_calls: "cache_ok L p \<Longrightarrow> cache_ok L (after_calls L js p)"
  by (induction js arbitrary: p) (simp_all add: cache_ok_shouldPassIssue)

lemma calls_ok_after_calls: "calls_ok p \<Longrightarrow> calls_ok (after_calls L js p)"
  by (induction js arbitrary: p) (simp_all add: calls_ok_shouldPassIssue)


lemma getOrCreateFileSummary_fails:
  assumes "fst (getOrCreateFileSummary L i p) = Inl e"
  shows "fileSummaryCache p (FilePath i) = None"
    and "FilePath i = [] \<or> Err (astCache p (FilePath i)) \<noteq> None"
    and "summaries (snd (getOrCreateFileSummary L i p)) = summaries p @ [\<lparr>isGenerated = False\<rparr>]"
    and "fileSummaryCache (snd (getOrCreateFileSummary L i p)) =
           (fileSummaryCache p)(FilePath i \<mapsto> length (summaries p))"
  using assms
  by (auto simp: getOrCreateFileSummary_def Let_def split: option.splits if_splits)

lemma summary_stable_step:
  assumes "fileSummaryCache p path = Some fs" "fs < length (summaries p)"
  shows "fileSummaryCache (snd (shouldPassIssue L i p)) path = Some fs
         \<and> fs < length (summaries (snd (shouldPassIssue L i p)))
         \<and> summaries (snd (shouldPassIssue L i p)) ! fs = summaries p ! fs"
proof (cases p i rule: shouldPassIssue_cases)
  case (hit fs')
  with assms show ?thesis by (simp add: shouldPassIssue_hit)
next
  case no_path
  with assms have "path \<noteq> []" by auto
  with assms show ?thesis by (simp add: shouldPassIssue_no_path[OF no_path] nth_append)
next
  case (parse_error e)
  with assms have "path \<noteq> FilePath i" by auto
  with assms show ?thesis by (simp add: shouldPassIssue_parse_error[OF parse_error] nth_append)
next
  case classified
  with assms have "path \<noteq> FilePath i" by auto
  with assms show ?thesis by (simp add: shouldPassIssue_classified[OF classified] nth_append)
qed

lemma summary_stable:
  assumes "fileSummaryCache p path = Some fs" "fs < length (summaries p)"
  shows "fileSummaryCache (after_calls L js p) path = Some fs
         \<and> fs < length (summaries (after_calls L js p))
         \<and> summaries (after_calls L js p) ! fs = summaries p ! fs"
  using assms
proof (induction js arbitrary: p)
  case Nil
  then show ?case by simp
next
  case (Cons j js)
  let ?q = "snd (shouldPassIssue L j p)"
  from Cons.prems have step: "fileSummaryCache ?q path = Some fs \<and> fs < length (summaries ?q)
      \<and> summaries ?q ! fs = summaries p ! fs"
    by (rule summary_stable_step)
  with Cons.IH[of ?q] show ?case by simp
qed

lemma shouldPassIssue_parsable:
  assumes "cache_ok L p" "FilePath i \<noteq> []" "Err (astCache p (FilePath i)) = None"
  shows "fst (shouldPassIssue L i p) =
           Inr (\<not> file_is_generated L (astCache p (FilePath i)) (FilePath i))"
proof (cases "fileSummaryCache p (FilePath i)")
  case None
  then show ?thesis using assms(2,3) by (simp add: shouldPassIssue_classified)
next
  case (Some fs)
  with assms(1) have "isGenerated (summaries p ! fs) = summary_value L (astCache p) (FilePath i)"
    unfolding cache_ok_def by blast
  with Some assms(2,3) show ?thesis by (simp add: shouldPassIssue_hit summary_value_def)
qed

lemma shouldPassIssue_remembered:
  assumes "cache_ok L p" "fst (shouldPassIssue L i p) = Inr b"
  shows "\<exists>fs. fileSummaryCache (snd (shouldPassIssue L i p)) (FilePath i) = Some fs
           \<and> fs < length (summaries (snd (shouldPassIssue L i p)))
           \<and> isGenerated (summaries (snd (shouldPassIssue L i p)) ! fs) = (\<not> b)"
proof (cases p i rule: shouldPassIssue_cases)
  case (hit fs)
  with assms(1) have "fs < length (summaries p)" unfolding cache_ok_def by blast
  with hit assms(2) show ?thesis by (auto simp: shouldPassIssue_hit)
next
  case no_path
  with assms(2) show ?thesis by (simp add: shouldPassIssue_no_path[OF no_path])
next
  case (parse_error e)
  with assms(2) show ?thesis by (simp add: shouldPassIssue_parse_error[OF parse_error])
next
  case classified
  with assms(2) show ?thesis by (auto simp: shouldPassIssue_classified[OF classified])
qed

lemma count_list_distinct: "distinct xs \<Longrightarrow> count_list xs x \<le> 1"
  by (induction xs) auto

section \<open>Facts about the filtering helper\<close>

lemma loop_subseq:
  "filterIssuesErr_loop issues pred acc s = (Inr out, s') \<Longrightarrow>
   \<exists>kept. out = acc @ kept \<and> subseq kept issues"
proof (induction issues arbitrary: acc s)
  case Nil
  then show ?case by simp
next
  case (Cons i issues)
  obtain r s1 where r: "pred i s = (r, s1)" by (cases "pred i s")
  show ?case
  proof (cases r)
    case (Inl e)
    with Cons.prems r show ?thesis by simp
  next
    case (Inr ok)
    show ?thesis
    proof (cases ok)
      case True
      with Cons.prems r Inr
      have "filterIssuesErr_loop issues pred (acc @ [i]) s1 = (Inr out, s')" by simp
      then obtain kept where "out = (acc @ [i]) @ kept" "subseq kept issues"
        using Cons.IH by blast
      then have "out = acc @ (i # kept) \<and> subseq (i # kept) (i # issues)" by simp
      then show ?thesis by blast
    next
      case False
      with Cons.prems r Inr
      have "filterIssuesErr_loop issues pred acc s1 = (Inr out, s')" by simp
      then obtain kept where "out = acc @ kept" "subseq kept issues"
        using Cons.IH by blast
      then have "out = acc @ kept \<and> subseq kept (i # issues)" by auto
      then show ?thesis by blast
    qed
  qed
qed

lemma loop_append:
  "filterIssuesErr_loop (xs @ ys) pred acc s =
     (case filterIssuesErr_loop xs pred acc s of
        (Inl e, s') \<Rightarrow> (Inl e, s')
      | (Inr acc', s') \<Rightarrow> filterIssuesErr_loop ys pred acc' s')"
  by (induction xs arbitrary: acc s) (auto split: prod.splits sum.splits)

lemma loop_parsable:
  assumes "cache_ok L p"
    and "\<forall>i\<in>set issues. FilePath i \<noteq> [] \<and> Err (astCache p (FilePath i)) = None"
  shows "fst (filterIssuesErr_loop issues (shouldPassIssue L) acc p) =
           Inr (acc @ filter (\<lambda>i. \<not> file_is_generated L (astCache p (FilePath i)) (FilePath i)) issues)"
  using assms
proof (induction issues arbitrary: acc p)
  case Nil
  then show ?case by simp
next
  case (Cons i issues)
  let ?b = "\<not> file_is_generated L (astCache p (FilePath i)) (FilePath i)"
  obtain r q where step: "shouldPassIssue L i p = (r, q)" by (cases "shouldPassIssue L i p")
  from Cons.prems have "fst (shouldPassIssue L i p) = Inr ?b"
    by (simp add: shouldPassIssue_parsable)
  with step have r: "r = Inr ?b" by simp
  have q: "cache_ok L q"
    using cache_ok_shouldPassIssue[OF Cons.prems(1), of i] step by simp
  have same: "astCache q = astCache p"
    using astCache_shouldPassIssue[of L i p] step by simp
  have rest: "\<forall>i\<in>set issues. FilePath i \<noteq> [] \<and> Err (astCache q (FilePath i)) = None"
    using Cons.prems(2) same by simp
  have "fst (filterIssuesErr_loop issues (shouldPassIssue L) acc' q) =
          Inr (acc' @ filter (\<lambda>i. \<not> file_is_generated L (astCache p (FilePath i)) (FilePath i)) issues)"
    for acc'
    using Cons.IH[OF q rest, of acc'] same by simp
  then show ?case using step r by simp
qed

lemma shouldPassIssue_verdict:
  assumes "cache_ok L p" "fst (shouldPassIssue L i p) = Inr b"
  shows "b = (\<not> summary_value L (astCache p) (FilePath i))"
proof (cases p i rule: shouldPassIssue_cases)
  case (hit fs)
  with assms(1) have "isGenerated (summaries p ! fs) = summary_value L (astCache p) (FilePath i)"
    unfolding cache_ok_def by blast
  with hit assms(2) show ?thesis by (auto simp: shouldPassIssue_hit)
next
  case no_path
  with assms(2) show ?thesis by (simp add: shouldPassIssue_no_path[OF no_path])
next
  case (parse_error e)
  with assms(2) show ?thesis by (simp add: shouldPassIssue_parse_error[OF parse_error])
next
  case classified
  with assms(2) show ?thesis
    by (auto simp: shouldPassIssue_classified[OF classified] summary_value_def)
qed

lemma loop_verdict:
  assumes "cache_ok L p"
    and "filterIssuesErr_loop issues (shouldPassIssue L) acc p = (Inr out, p')"
  shows "out = acc @ filter (\<lambda>i. \<not> summary_value L (astCache p) (FilePath i)) issues"
  using assms
proof (induction issues arbitrary: acc p)
  case Nil
  then show ?case by simp
next
  case (Cons i issues)
  obtain r q where step: "shouldPassIssue L i p = (r, q)" by (cases "shouldPassIssue L i p")
  have q: "cache_ok L q"
    using cache_ok_shouldPassIssue[OF Cons.prems(1), of i] step by simp
  have same: "astCache q = astCache p"
    using astCache_shouldPassIssue[of L i p] step by simp
  show ?case
  proof (cases r)
    case (Inl e)
    with Cons.prems(2) step show ?thesis by simp
  next
    case (Inr b)
    with step have "fst (shouldPassIssue L i p) = Inr b" by simp
    from shouldPassIssue_verdict[OF Cons.prems(1) this]
    have b: "b = (\<not> summary_value L (astCache p) (FilePath i))" .
    show ?thesis
    proof (cases b)
      case True
      with Cons.prems(2) step Inr
      have "filterIssuesErr_loop issues (shouldPassIssue L) (acc @ [i]) q = (Inr out, p')" by simp
      from Cons.IH[OF q this] same b True show ?thesis by simp
    next
      case False
      with Cons.prems(2) step Inr
      have "filterIssuesErr_loop issues (shouldPassIssue L) acc q = (Inr out, p')" by simp
      from Cons.IH[OF q this] same b False show ?thesis by simp
    qed
  qed
qed

lemma loop_abort:
  assumes "fst (filterIssuesErr_loop pre pred acc s) = Inr kept"
    and "fst (pred i (snd (filterIssuesErr_loop pre pred acc s))) = Inl err"
  shows "filterIssuesErr_loop (pre @ i # post) pred acc s =
           (Inl err, snd (pred i (snd (filterIssuesErr_loop pre pred acc s))))"
proof -
  obtain s1 where pre: "filterIssuesErr_loop pre pred acc s = (Inr kept, s1)"
    using assms(1) by (cases "filterIssuesErr_loop pre pred acc s") simp
  obtain s2 where i: "pred i s1 = (Inl err, s2)"
    using assms(2) pre by (cases "pred i s1") simp
  show ?thesis by (simp add: loop_append pre i)
qed

lemmas eval_defs =
  Process_def filterIssuesErr_def shouldPassIssue_def getOrCreateFileSummary_def
  NewAutogeneratedExclude_def example_cache_def issue_at_def FilePath_def getDoc_def
  header_file_def trailing_go_def trailing_go_eof_def unparsed_def lines_fset_def
  ast_File_End_def ident_End_def isGeneratedFileByComment_def markers_def
  genCodeGenerated_def genDoNotEdit_def genAutoFile_def lower_byte_def ascii_def
  char_of_def Let_def file_is_generated_def is_cgo_boilerplate_def eligible_comments_def
  eligible_def cutoff_def spec_doc_def spec_eligible_def spec_cutoff_def

section \<open>The claims\<close>

text \<open>
  C4: for every parsed file the doc is built from the comment groups that start strictly
  before the cutoff, in column 1, and are not the cgo boilerplate, where the cutoff is the
  position of the first import if there is one and end-of-file otherwise. The code selects
  and joins the comments in that way, but in a file without import its cutoff is
  \<^verbatim>\<open>f.End()\<close>, the end of the last declaration, although its own trace message there
  reads \<^verbatim>\<open>search comments until EOF pos\<close>. In \<^verbatim>\<open>trailing.go\<close>, which has no import, the only
  comment group starts in column 1 at position 32, after the last declaration (which ends
  at 30) and before the end of the file (72): \<^verbatim>\<open>getDoc\<close> returns the empty doc and the file
  classifies as not generated, while the doc built as the claim says is the text of that
  comment, which classifies as generated.
\<close>

theorem C4_trailing_comment_not_selected:
  "Imports (F trailing_go) = []
   \<and> ast_File_End (F trailing_go) = 30
   \<and> map cg_Pos (Comments (F trailing_go)) = [32]
   \<and> Column (Fset trailing_go 32) = 1
   \<and> 32 < trailing_go_eof
   \<and> getDoc (F trailing_go) (Fset trailing_go) ''trailing.go'' = []
   \<and> spec_doc (F trailing_go) (Fset trailing_go) trailing_go_eof
       = ''Code generated by hand. DO NOT EDIT.'' @ [CHR 0x0A]
   \<and> \<not> file_is_generated example_ToLower trailing_go ''trailing.go''
   \<and> isGeneratedFileByComment example_ToLower
        (spec_doc (F trailing_go) (Fset trailing_go) trailing_go_eof)"
  by (simp add: eval_defs)

text \<open>
  C5: for every doc string, \<^verbatim>\<open>isGeneratedFileByComment\<close> answers true if and only if the
  lower-cased doc, that is \<^verbatim>\<open>strings.ToLower(doc)\<close>, contains \<^verbatim>\<open>"code generated"\<close>,
  \<^verbatim>\<open>"do not edit"\<close> or \<^verbatim>\<open>"autogenerated file"\<close> somewhere (with any text before and after
  it). In particular, \<^verbatim>\<open>strings.ToLower\<close> lower-casing ASCII text as it does,
  \<^verbatim>\<open>"// Code Generated By MockGen. DO NOT EDIT."\<close> classifies as generated and
  \<^verbatim>\<open>"// hand-written, please edit"\<close> as not generated.
\<close>

theorem C5_marker_match:
  "(isGeneratedFileByComment ToLower doc \<longleftrightarrow>
      ((\<exists>ps ss. ToLower doc = ps @ ''code generated'' @ ss)
       \<or> (\<exists>ps ss. ToLower doc = ps @ ''do not edit'' @ ss)
       \<or> (\<exists>ps ss. ToLower doc = ps @ ''autogenerated file'' @ ss)))
   \<and> (ascii_lowering ToLower \<longrightarrow>
        isGeneratedFileByComment ToLower ''// Code Generated By MockGen. DO NOT EDIT.''
        \<and> \<not> isGeneratedFileByComment ToLower ''// hand-written, please edit'')"
proof -
  have mockgen: "isGeneratedFileByComment (map lower_byte) ''// Code Generated By MockGen. DO NOT EDIT.''"
    by (simp add: eval_defs)
  have hand: "\<not> isGeneratedFileByComment (map lower_byte) ''// hand-written, please edit''"
    by (simp add: eval_defs)
  have "isGeneratedFileByComment ToLower ''// Code Generated By MockGen. DO NOT EDIT.''
        \<and> \<not> isGeneratedFileByComment ToLower ''// hand-written, please edit''"
    if "ascii_lowering ToLower"
    using mockgen hand isGeneratedFileByComment_ascii[OF that]
    by (simp add: ascii_def)
  moreover have "isGeneratedFileByComment ToLower doc \<longleftrightarrow>
      ((\<exists>ps ss. ToLower doc = ps @ ''code generated'' @ ss)
       \<or> (\<exists>ps ss. ToLower doc = ps @ ''do not edit'' @ ss)
       \<or> (\<exists>ps ss. ToLower doc = ps @ ''autogenerated file'' @ ss))"
    unfolding isGeneratedFileByComment_iff strings_Contains_iff ..
  ultimately show ?thesis by blast
qed

theorem C5_witness_example_ToLower:
  "ascii_lowering example_ToLower
   \<and> isGeneratedFileByComment example_ToLower ''// Code Generated By MockGen. DO NOT EDIT.''
   \<and> \<not> isGeneratedFileByComment example_ToLower ''// hand-written, please edit''
   \<and> example_ToLower (''// DO NOT ED'' @ [CHR 0xC4, CHR 0xB0] @ ''T'') = ''// do not edit''
   \<and> isGeneratedFileByComment example_ToLower (''// DO NOT ED'' @ [CHR 0xC4, CHR 0xB0] @ ''T'')"
proof -
  note contract = ascii_lowering_example
  note c = C5_marker_match[of example_ToLower "''// DO NOT ED'' @ [CHR 0xC4, CHR 0xB0] @ ''T''"]
  have lowered: "example_ToLower (''// DO NOT ED'' @ [CHR 0xC4, CHR 0xB0] @ ''T'') = ''// do not edit''"
    by (simp add: lower_byte_def char_of_def)
  then have "\<exists>ps ss. example_ToLower (''// DO NOT ED'' @ [CHR 0xC4, CHR 0xB0] @ ''T'')
      = ps @ ''do not edit'' @ ss"
    by (intro exI[of _ "''// ''"] exI[of _ "[]"]) simp
  with c have dotted: "isGeneratedFileByComment example_ToLower
      (''// DO NOT ED'' @ [CHR 0xC4, CHR 0xB0] @ ''T'')"
    by blast
  from c contract
  have "isGeneratedFileByComment example_ToLower ''// Code Generated By MockGen. DO NOT EDIT.''
      \<and> \<not> isGeneratedFileByComment example_ToLower ''// hand-written, please edit''"
    by blast
  with contract lowered dotted show ?thesis by blast
qed



text \<open>
  C1: a \<^verbatim>\<open>Process\<close> call that reaches an issue with an empty file path returns an error,
  whether or not the instance has seen the empty path before. The code does so only the
  first time: \<^verbatim>\<open>getOrCreateFileSummary\<close> stores the zero-value summary under the empty path
  before it tests the path, so on a fresh instance the first call returns the error
  \<^verbatim>\<open>"no file path for issue"\<close> and a second call with an issue without file path finds
  that summary, returns no error and keeps the issue.
\<close>

theorem C1_empty_path_passes_on_second_call:
  "fst (shouldPassIssue ToLower (issue_at [] 1) (NewAutogeneratedExclude example_cache))
     = Inl NoFilePathForIssue
   \<and> fst (shouldPassIssue ToLower (issue_at [] 2)
            (snd (shouldPassIssue ToLower (issue_at [] 1)
                   (NewAutogeneratedExclude example_cache))))
       = Inr True
   \<and> fst (Process ToLower [issue_at [] 1] (NewAutogeneratedExclude example_cache))
       = Inl NoFilePathForIssue
   \<and> fst (Process ToLower [issue_at [] 2]
            (snd (Process ToLower [issue_at [] 1] (NewAutogeneratedExclude example_cache))))
       = Inr [issue_at [] 2]"
  by (simp add: eval_defs)

text \<open>
  C2: a \<^verbatim>\<open>Process\<close> call that reaches an issue whose file carries a parse error returns an
  error, whether or not the instance has met the path before. The code does so only the
  first time: the zero-value summary is stored under the path before the file is parsed,
  so on a fresh instance the first call on \<^verbatim>\<open>bad.go\<close> returns the error
  \<^verbatim>\<open>"can't parse file"\<close> and a second call with an issue on \<^verbatim>\<open>bad.go\<close> finds that summary,
  returns no error and keeps the issue.
\<close>

theorem C2_parse_error_passes_on_second_call:
  "Err (example_cache ''bad.go'') = Some ''expected declaration''
   \<and> fst (shouldPassIssue ToLower (issue_at ''bad.go'' 1) (NewAutogeneratedExclude example_cache))
       = Inl (CantParseFile ''bad.go'' ''expected declaration'')
   \<and> fst (shouldPassIssue ToLower (issue_at ''bad.go'' 2)
            (snd (shouldPassIssue ToLower (issue_at ''bad.go'' 1)
                   (NewAutogeneratedExclude example_cache))))
       = Inr True
   \<and> fst (Process ToLower [issue_at ''bad.go'' 1] (NewAutogeneratedExclude example_cache))
       = Inl (CantParseFile ''bad.go'' ''expected declaration'')
   \<and> fst (Process ToLower [issue_at ''bad.go'' 2]
            (snd (Process ToLower [issue_at ''bad.go'' 1]
                   (NewAutogeneratedExclude example_cache))))
       = Inr [issue_at ''bad.go'' 2]"
  by (simp add: eval_defs)

text \<open>
  C3: when \<^verbatim>\<open>getOrCreateFileSummary\<close> fails for the path of an issue (the path is empty, or
  the file carries a parse error), the summary allocated by that call, with
  \<open>isGenerated = False\<close>, is in \<open>fileSummaryCache\<close> under that path when the call returns.
  It is still there, unchanged, after any further calls on the instance, and every later
  \<^verbatim>\<open>shouldPassIssue\<close> call with an issue of the same path returns \<^verbatim>\<open>(true, nil)\<close> and
  leaves the instance as it is.
\<close>

theorem C3_failed_summary_stays_cached:
  assumes "fst (getOrCreateFileSummary ToLower i p) = Inl e"
    and "FilePath j = FilePath i"
  shows "fileSummaryCache (snd (getOrCreateFileSummary ToLower i p)) (FilePath i)
           = Some (length (summaries p))
         \<and> summaries (snd (getOrCreateFileSummary ToLower i p)) ! length (summaries p)
           = \<lparr>isGenerated = False\<rparr>
         \<and> fileSummaryCache (after_calls ToLower js (snd (getOrCreateFileSummary ToLower i p))) (FilePath i)
           = Some (length (summaries p))
         \<and> summaries (after_calls ToLower js (snd (getOrCreateFileSummary ToLower i p))) ! length (summaries p)
           = \<lparr>isGenerated = False\<rparr>
         \<and> shouldPassIssue ToLower j (after_calls ToLower js (snd (getOrCreateFileSummary ToLower i p)))
           = (Inr True, after_calls ToLower js (snd (getOrCreateFileSummary ToLower i p)))"
proof -
  let ?p' = "snd (getOrCreateFileSummary ToLower i p)"
  let ?fs = "length (summaries p)"
  let ?q = "after_calls ToLower js ?p'"
  have cached: "fileSummaryCache ?p' (FilePath i) = Some ?fs"
    using getOrCreateFileSummary_fails(4)[OF assms(1)] by simp
  have alloc: "?fs < length (summaries ?p')"
    using getOrCreateFileSummary_fails(3)[OF assms(1)] by simp
  have zero: "summaries ?p' ! ?fs = \<lparr>isGenerated = False\<rparr>"
    using getOrCreateFileSummary_fails(3)[OF assms(1)] by simp
  from summary_stable[OF cached alloc, where js = js and L = ToLower]
  have later: "fileSummaryCache ?q (FilePath i) = Some ?fs"
    and same: "summaries ?q ! ?fs = summaries ?p' ! ?fs"
    by simp_all
  from later assms(2) have "fileSummaryCache ?q (FilePath j) = Some ?fs" by simp
  then have "shouldPassIssue ToLower j ?q = (Inr (\<not> isGenerated (summaries ?q ! ?fs)), ?q)"
    by (rule shouldPassIssue_hit)
  with same zero have "shouldPassIssue ToLower j ?q = (Inr True, ?q)" by simp
  with cached zero later same show ?thesis by simp
qed

theorem C3_witness_bad_go:
  "fst (getOrCreateFileSummary example_ToLower (issue_at ''bad.go'' 1) (NewAutogeneratedExclude example_cache))
     = Inl (CantParseFile ''bad.go'' ''expected declaration'')
   \<and> FilePath (issue_at ''bad.go'' 7) = FilePath (issue_at ''bad.go'' 1)
   \<and> fst (shouldPassIssue example_ToLower (issue_at ''bad.go'' 7)
        (after_calls example_ToLower [issue_at ''gen.go'' 2, issue_at [] 3]
           (snd (getOrCreateFileSummary example_ToLower (issue_at ''bad.go'' 1)
                  (NewAutogeneratedExclude example_cache)))))
       = Inr True"
proof -
  let ?p = "NewAutogeneratedExclude example_cache"
  let ?i = "issue_at ''bad.go'' 1" and ?j = "issue_at ''bad.go'' 7"
  have fails: "fst (getOrCreateFileSummary example_ToLower ?i ?p)
      = Inl (CantParseFile ''bad.go'' ''expected declaration'')"
    by (simp add: eval_defs)
  have path: "FilePath ?j = FilePath ?i"
    by (simp add: issue_at_def FilePath_def)
  from C3_failed_summary_stays_cached[OF fails path,
      where js = "[issue_at ''gen.go'' 2, issue_at [] 3]"]
  have "fst (shouldPassIssue example_ToLower ?j
          (after_calls example_ToLower [issue_at ''gen.go'' 2, issue_at [] 3] (snd (getOrCreateFileSummary example_ToLower ?i ?p))))
        = Inr True"
    by simp
  with fails path show ?thesis by blast
qed

text \<open>
  C7: on one processor instance the boolean of a path is computed at most once: however
  many issues were passed to the instance, it has asked the source cache to parse the path
  at most once and has classified the path at most once. Once a request for a path has
  returned a boolean, every later request for that path on the instance returns the same
  boolean and changes nothing (no further parse, no further classification).
\<close>

theorem C7_summary_computed_once:
  assumes "p = after_calls ToLower js (NewAutogeneratedExclude c)"
    and "fst (shouldPassIssue ToLower i p) = Inr b"
    and "FilePath j = FilePath i"
  shows "count_list (calls p) (GetOrParse path) \<le> 1
         \<and> count_list (calls p) (Classify path) \<le> 1
         \<and> shouldPassIssue ToLower j (after_calls ToLower ks (snd (shouldPassIssue ToLower i p)))
           = (Inr b, after_calls ToLower ks (snd (shouldPassIssue ToLower i p)))"
proof -
  let ?p1 = "snd (shouldPassIssue ToLower i p)"
  let ?q = "after_calls ToLower ks ?p1"
  have "calls_ok p"
    unfolding assms(1) by (rule calls_ok_after_calls[OF calls_ok_New])
  then have "distinct (calls p)" by (simp add: calls_ok_def)
  then have once: "count_list (calls p) x \<le> 1" for x
    by (rule count_list_distinct)
  have "cache_ok ToLower p"
    unfolding assms(1) by (rule cache_ok_after_calls[OF cache_ok_New])
  from shouldPassIssue_remembered[OF this assms(2)]
  obtain fs where cached: "fileSummaryCache ?p1 (FilePath i) = Some fs"
    and alloc: "fs < length (summaries ?p1)"
    and val: "isGenerated (summaries ?p1 ! fs) = (\<not> b)"
    by blast
  from summary_stable[OF cached alloc, where js = ks and L = ToLower]
  have later: "fileSummaryCache ?q (FilePath i) = Some fs"
    and same: "summaries ?q ! fs = summaries ?p1 ! fs"
    by simp_all
  from later assms(3) have "fileSummaryCache ?q (FilePath j) = Some fs" by simp
  then have "shouldPassIssue ToLower j ?q = (Inr (\<not> isGenerated (summaries ?q ! fs)), ?q)"
    by (rule shouldPassIssue_hit)
  with same val have "shouldPassIssue ToLower j ?q = (Inr b, ?q)" by simp
  with once show ?thesis by simp
qed

theorem C7_witness_gen_go:
  "fst (shouldPassIssue example_ToLower (issue_at ''gen.go'' 2)
         (after_calls example_ToLower [issue_at ''hand.go'' 1] (NewAutogeneratedExclude example_cache)))
     = Inr False
   \<and> FilePath (issue_at ''gen.go'' 9) = FilePath (issue_at ''gen.go'' 2)
   \<and> count_list
        (calls (after_calls example_ToLower [issue_at ''hand.go'' 1] (NewAutogeneratedExclude example_cache)))
        (GetOrParse ''hand.go'') \<le> 1
   \<and> fst (shouldPassIssue example_ToLower (issue_at ''gen.go'' 9)
        (after_calls example_ToLower [issue_at ''hand.go'' 3, issue_at ''gen.go'' 4]
          (snd (shouldPassIssue example_ToLower (issue_at ''gen.go'' 2)
            (after_calls example_ToLower [issue_at ''hand.go'' 1] (NewAutogeneratedExclude example_cache))))))
       = Inr False"
proof -
  let ?p = "after_calls example_ToLower [issue_at ''hand.go'' 1] (NewAutogeneratedExclude example_cache)"
  let ?i = "issue_at ''gen.go'' 2" and ?j = "issue_at ''gen.go'' 9"
  let ?ks = "[issue_at ''hand.go'' 3, issue_at ''gen.go'' 4]"
  have first: "fst (shouldPassIssue example_ToLower ?i ?p) = Inr False"
    by (simp add: eval_defs)
  have path: "FilePath ?j = FilePath ?i"
    by (simp add: issue_at_def FilePath_def)
  note c = C7_summary_computed_once[OF refl first path,
      where path = "''hand.go''" and ks = ?ks]
  from c have "count_list (calls ?p) (GetOrParse ''hand.go'') \<le> 1" by blast
  moreover from c have "fst (shouldPassIssue example_ToLower ?j (after_calls example_ToLower ?ks (snd (shouldPassIssue example_ToLower ?i ?p))))
      = Inr False"
    by simp
  ultimately show ?thesis using first path by blast
qed

text \<open>
  C8: on any processor instance, an issue with a non-empty path whose file parses is kept
  if and only if the classifier says that its file is not generated: \<^verbatim>\<open>shouldPassIssue\<close>
  answers so, a \<^verbatim>\<open>Process\<close> call on such issues succeeds and returns exactly those whose
  file is not generated, and in the output of any successful \<^verbatim>\<open>Process\<close> call such an
  issue occurs if and only if its file is not generated. In particular,
  \<^verbatim>\<open>strings.ToLower\<close> lower-casing ASCII text as it does, an issue is dropped when its file
  has a comment group that starts before the cutoff, in column 1, is not the cgo
  boilerplate and whose text contains
  \<^verbatim>\<open>"Code generated by protoc-gen-go. DO NOT EDIT."\<close> (the text that \<^verbatim>\<open>g.Text()\<close> returns
  for that comment is the phrase followed by a newline).
\<close>

theorem C8_kept_iff_not_generated:
  assumes "p = after_calls ToLower js (NewAutogeneratedExclude c)"
    and "\<forall>i\<in>set issues. FilePath i \<noteq> [] \<and> Err (c (FilePath i)) = None"
  shows "(\<forall>i\<in>set issues.
            fst (shouldPassIssue ToLower i p)
              = Inr (\<not> file_is_generated ToLower (c (FilePath i)) (FilePath i)))
         \<and> fst (Process ToLower issues p)
             = Inr (filter (\<lambda>i. \<not> file_is_generated ToLower (c (FilePath i)) (FilePath i)) issues)
         \<and> (\<forall>i\<in>set issues.
              fst (Process ToLower others p) = Inr out \<and> i \<in> set others
              \<longrightarrow> (i \<in> set out \<longleftrightarrow> \<not> file_is_generated ToLower (c (FilePath i)) (FilePath i)))
         \<and> (ascii_lowering ToLower \<longrightarrow>
              (\<forall>i\<in>set issues.
                 (\<exists>g\<in>set (Comments (F (c (FilePath i)))).
                     cg_Pos g < cutoff (F (c (FilePath i)))
                     \<and> Column (Fset (c (FilePath i)) (cg_Pos g)) = 1
                     \<and> \<not> is_cgo_boilerplate (cg_Text g)
                     \<and> strings_Contains (cg_Text g)
                          ''Code generated by protoc-gen-go. DO NOT EDIT.'')
                 \<longrightarrow> file_is_generated ToLower (c (FilePath i)) (FilePath i)
                     \<and> fst (shouldPassIssue ToLower i p) = Inr False))"
proof -
  have ok: "cache_ok ToLower p"
    unfolding assms(1) by (rule cache_ok_after_calls[OF cache_ok_New])
  have c: "astCache p = c"
    unfolding assms(1) by (simp add: NewAutogeneratedExclude_def)
  have each: "fst (shouldPassIssue ToLower i p)
      = Inr (\<not> file_is_generated ToLower (c (FilePath i)) (FilePath i))"
    if "i \<in> set issues" for i
    using shouldPassIssue_parsable[OF ok, of i] assms(2) that c by simp
  have all: "fst (Process ToLower issues p)
      = Inr (filter (\<lambda>i. \<not> file_is_generated ToLower (c (FilePath i)) (FilePath i)) issues)"
    using loop_parsable[OF ok, of issues "[]"] assms(2) c
    by (simp add: Process_def filterIssuesErr_def)
  have among: "i \<in> set out \<longleftrightarrow> \<not> file_is_generated ToLower (c (FilePath i)) (FilePath i)"
    if i: "i \<in> set issues" and out: "fst (Process ToLower others p) = Inr out"
      and o: "i \<in> set others"
    for i
  proof -
    from out obtain p'
      where "filterIssuesErr_loop others (shouldPassIssue ToLower) [] p = (Inr out, p')"
      unfolding Process_def filterIssuesErr_def
      by (cases "filterIssuesErr_loop others (shouldPassIssue ToLower) [] p") simp
    from loop_verdict[OF ok this] c
    have "out = filter (\<lambda>i. \<not> summary_value ToLower c (FilePath i)) others" by simp
    moreover have "summary_value ToLower c (FilePath i)
        = file_is_generated ToLower (c (FilePath i)) (FilePath i)"
      using assms(2) i by (simp add: summary_value_def)
    ultimately show ?thesis using o by simp
  qed
  have protoc: "file_is_generated ToLower (c (FilePath i)) (FilePath i)
      \<and> fst (shouldPassIssue ToLower i p) = Inr False"
    if contract: "ascii_lowering ToLower" and i: "i \<in> set issues"
      and g: "g \<in> set (Comments (F (c (FilePath i))))" "cg_Pos g < cutoff (F (c (FilePath i)))"
        "Column (Fset (c (FilePath i)) (cg_Pos g)) = 1"
        "\<not> is_cgo_boilerplate (cg_Text g)"
        "strings_Contains (cg_Text g) ''Code generated by protoc-gen-go. DO NOT EDIT.''"
    for i g
  proof -
    let ?header = "''Code generated by protoc-gen-go. DO NOT EDIT.''"
    have plain: "ascii ?header" by (simp add: ascii_def)
    have "isGeneratedFileByComment (map lower_byte) ?header" by (simp add: eval_defs)
    then have marked: "isGeneratedFileByComment ToLower ?header"
      using isGeneratedFileByComment_ascii[OF contract plain] by simp
    have part: "sublist ?header (cg_Text g)"
      using g(5) by (simp add: strings_Contains_sublist)
    have "eligible (F (c (FilePath i))) (Fset (c (FilePath i))) g"
      using g(2,3,4) by (simp add: eligible_def)
    with contract g(1) have "file_is_generated ToLower (c (FilePath i)) (FilePath i)"
      unfolding file_is_generated_def using plain part marked
      by (rule eligible_comment_generated)
    with each[OF i] show ?thesis by simp
  qed
  from each all among protoc show ?thesis by blast
qed

theorem C8_witness_gen_and_hand:
  "ascii_lowering example_ToLower
   \<and> cg_Text (hd (Comments (F (example_cache ''gen.go''))))
       = ''Code generated by protoc-gen-go. DO NOT EDIT.'' @ [CHR 0x0A]
   \<and> fst (Process example_ToLower
            [issue_at ''gen.go'' 3, issue_at ''hand.go'' 5, issue_at ''gen.go'' 8]
            (NewAutogeneratedExclude example_cache))
       = Inr [issue_at ''hand.go'' 5]
   \<and> fst (Process example_ToLower [issue_at ''gen.go'' 3, issue_at ''gen.go'' 8]
            (NewAutogeneratedExclude example_cache))
       = Inr []
   \<and> fst (shouldPassIssue example_ToLower (issue_at ''gen.go'' 3)
            (NewAutogeneratedExclude example_cache))
       = Inr False
   \<and> fst (Process example_ToLower
            [issue_at [] 1, issue_at ''gen.go'' 3, issue_at ''hand.go'' 5]
            (after_calls example_ToLower [issue_at [] 0] (NewAutogeneratedExclude example_cache)))
       = Inr [issue_at [] 1, issue_at ''hand.go'' 5]
   \<and> issue_at ''gen.go'' 3 \<notin> set [issue_at [] 1, issue_at ''hand.go'' 5]"
proof -
  let ?p = "NewAutogeneratedExclude example_cache"
  let ?mixed = "[issue_at ''gen.go'' 3, issue_at ''hand.go'' 5, issue_at ''gen.go'' 8]"
  let ?gen = "[issue_at ''gen.go'' 3, issue_at ''gen.go'' 8]"
  let ?keep = "\<lambda>i. \<not> file_is_generated example_ToLower (example_cache (FilePath i)) (FilePath i)"
  note contract = ascii_lowering_example
  have comment_text: "cg_Text (hd (Comments (F (example_cache ''gen.go''))))
      = ''Code generated by protoc-gen-go. DO NOT EDIT.'' @ [CHR 0x0A]"
    by (simp add: example_cache_def header_file_def Let_def)
  have start: "?p = after_calls example_ToLower [] ?p" by simp
  have mixed: "\<forall>i\<in>set ?mixed. FilePath i \<noteq> [] \<and> Err (example_cache (FilePath i)) = None"
    by (simp add: issue_at_def FilePath_def example_cache_def header_file_def Let_def)
  have gen: "\<forall>i\<in>set ?gen. FilePath i \<noteq> [] \<and> Err (example_cache (FilePath i)) = None"
    by (simp add: issue_at_def FilePath_def example_cache_def header_file_def Let_def)
  have header: "\<exists>g\<in>set (Comments (F (example_cache (FilePath (issue_at ''gen.go'' 3))))).
      cg_Pos g < cutoff (F (example_cache (FilePath (issue_at ''gen.go'' 3))))
      \<and> Column (Fset (example_cache (FilePath (issue_at ''gen.go'' 3))) (cg_Pos g)) = 1
      \<and> \<not> is_cgo_boilerplate (cg_Text g)
      \<and> strings_Contains (cg_Text g) ''Code generated by protoc-gen-go. DO NOT EDIT.''"
    by (simp add: issue_at_def FilePath_def example_cache_def header_file_def cutoff_def
        lines_fset_def is_cgo_boilerplate_def Let_def)
  have verdicts: "file_is_generated example_ToLower (example_cache ''gen.go'') ''gen.go''"
    "\<not> file_is_generated example_ToLower (example_cache ''hand.go'') ''hand.go''"
    by (simp_all add: eval_defs)
  have kept_mixed: "filter ?keep ?mixed = [issue_at ''hand.go'' 5]"
    by (simp add: issue_at_def FilePath_def verdicts)
  have kept_gen: "filter ?keep ?gen = []"
    by (simp add: issue_at_def FilePath_def verdicts)
  note m = C8_kept_iff_not_generated[OF start mixed]
  note g = C8_kept_iff_not_generated[OF start gen]
  from m have "fst (Process example_ToLower ?mixed ?p) = Inr (filter ?keep ?mixed)" by blast
  then have 1: "fst (Process example_ToLower ?mixed ?p) = Inr [issue_at ''hand.go'' 5]"
    unfolding kept_mixed .
  from g have "fst (Process example_ToLower ?gen ?p) = Inr (filter ?keep ?gen)" by blast
  then have 2: "fst (Process example_ToLower ?gen ?p) = Inr []"
    unfolding kept_gen .
  have member: "issue_at ''gen.go'' 3 \<in> set ?gen" by simp
  note dropped = g[THEN conjunct2, THEN conjunct2, THEN conjunct2, THEN mp, OF contract,
      THEN bspec, OF member, THEN mp, OF header]
  from dropped have is_gen: "file_is_generated example_ToLower
      (example_cache (FilePath (issue_at ''gen.go'' 3))) (FilePath (issue_at ''gen.go'' 3))"
    and 3: "fst (shouldPassIssue example_ToLower (issue_at ''gen.go'' 3) ?p) = Inr False"
    by blast+
  let ?seen = "after_calls example_ToLower [issue_at [] 0] ?p"
  let ?others = "[issue_at [] 1, issue_at ''gen.go'' 3, issue_at ''hand.go'' 5]"
  let ?out = "[issue_at [] 1, issue_at ''hand.go'' 5]"
  have 4: "fst (Process example_ToLower ?others ?seen) = Inr ?out"
    by (simp add: eval_defs)
  have other: "issue_at ''gen.go'' 3 \<in> set ?others" by simp
  note among = C8_kept_iff_not_generated[where js = "[issue_at [] 0]" and others = ?others
      and out = ?out, OF refl gen, THEN conjunct2, THEN conjunct2, THEN conjunct1,
      THEN bspec, OF member]
  from among 4 other is_gen have 5: "issue_at ''gen.go'' 3 \<notin> set ?out"
    by blast
  from contract comment_text 1 2 3 4 5 show ?thesis by blast
qed

text \<open>
  C6: a file in which every comment group that starts before the cutoff in column 1 is the
  C-interop boilerplate has an empty doc and classifies as not generated, and on any
  processor instance a \<^verbatim>\<open>Process\<close> call on issues of that file succeeds and returns all of
  them. The boilerplate \<^verbatim>\<open>"Created by cgo - DO NOT EDIT"\<close> is recognised as such, although
  as a doc of its own it would classify as generated.
\<close>

theorem C6_cgo_boilerplate_not_generated:
  assumes "ascii_lowering ToLower"
    and "p = after_calls ToLower js (NewAutogeneratedExclude c)"
    and "path \<noteq> []"
    and "Err (c path) = None"
    and "\<forall>g\<in>set (Comments (F (c path))).
           cg_Pos g < cutoff (F (c path)) \<and> Column (Fset (c path) (cg_Pos g)) = 1
           \<longrightarrow> is_cgo_boilerplate (cg_Text g)"
    and "\<forall>i\<in>set issues. FilePath i = path"
  shows "is_cgo_boilerplate ''Created by cgo - DO NOT EDIT''
         \<and> isGeneratedFileByComment ToLower ''Created by cgo - DO NOT EDIT''
         \<and> getDoc (F (c path)) (Fset (c path)) path = []
         \<and> \<not> file_is_generated ToLower (c path) path
         \<and> fst (Process ToLower issues p) = Inr issues"
proof -
  have ok: "cache_ok ToLower p"
    unfolding assms(2) by (rule cache_ok_after_calls[OF cache_ok_New])
  have c: "astCache p = c"
    unfolding assms(2) by (simp add: NewAutogeneratedExclude_def)
  have "eligible_comments (F (c path)) (Fset (c path)) = []"
    unfolding eligible_comments_def filter_empty_conv eligible_def using assms(5) by blast
  then have doc: "getDoc (F (c path)) (Fset (c path)) path = []"
    by (simp add: getDoc_eligible_doc eligible_doc_def)
  have "\<not> isGeneratedFileByComment ToLower []"
    using assms(1) by (rule not_generated_empty)
  with doc have hand: "\<not> file_is_generated ToLower (c path) path"
    by (simp add: file_is_generated_def)
  have "\<forall>i\<in>set issues. FilePath i \<noteq> [] \<and> Err (astCache p (FilePath i)) = None"
    using assms(3,4,6) c by simp
  from loop_parsable[OF ok this, of "[]"]
  have "fst (Process ToLower issues p)
      = Inr (filter (\<lambda>i. \<not> file_is_generated ToLower (c (FilePath i)) (FilePath i)) issues)"
    using c by (simp add: Process_def filterIssuesErr_def)
  moreover have "filter (\<lambda>i. \<not> file_is_generated ToLower (c (FilePath i)) (FilePath i)) issues
      = issues"
    using assms(6) hand by (simp add: filter_id_conv)
  ultimately have all: "fst (Process ToLower issues p) = Inr issues" by simp
  have "isGeneratedFileByComment (map lower_byte) ''Created by cgo - DO NOT EDIT''"
    by (simp add: eval_defs)
  then have alone: "isGeneratedFileByComment ToLower ''Created by cgo - DO NOT EDIT''"
    using isGeneratedFileByComment_ascii[OF assms(1), of "''Created by cgo - DO NOT EDIT''"]
    by (simp add: ascii_def)
  have "is_cgo_boilerplate ''Created by cgo - DO NOT EDIT''"
    by (simp add: is_cgo_boilerplate_def)
  with alone doc hand all show ?thesis by blast
qed

theorem C6_witness_cgo_wrap:
  "ascii_lowering example_ToLower
   \<and> cg_Text (hd (Comments (F (example_cache ''cgo_wrap.go''))))
       = ''Created by cgo - DO NOT EDIT'' @ [CHR 0x0A]
   \<and> \<not> file_is_generated example_ToLower (example_cache ''cgo_wrap.go'') ''cgo_wrap.go''
   \<and> fst (Process example_ToLower [issue_at ''cgo_wrap.go'' 4, issue_at ''cgo_wrap.go'' 7]
           (after_calls example_ToLower [issue_at ''gen.go'' 1]
              (NewAutogeneratedExclude example_cache)))
       = Inr [issue_at ''cgo_wrap.go'' 4, issue_at ''cgo_wrap.go'' 7]"
proof -
  let ?issues = "[issue_at ''cgo_wrap.go'' 4, issue_at ''cgo_wrap.go'' 7]"
  note contract = ascii_lowering_example
  have comment_text: "cg_Text (hd (Comments (F (example_cache ''cgo_wrap.go''))))
      = ''Created by cgo - DO NOT EDIT'' @ [CHR 0x0A]"
    by (simp add: example_cache_def header_file_def Let_def)
  have path: "''cgo_wrap.go'' \<noteq> []" by simp
  have parses: "Err (example_cache ''cgo_wrap.go'') = None"
    by (simp add: example_cache_def header_file_def Let_def)
  have only_cgo: "\<forall>g\<in>set (Comments (F (example_cache ''cgo_wrap.go''))).
      cg_Pos g < cutoff (F (example_cache ''cgo_wrap.go''))
      \<and> Column (Fset (example_cache ''cgo_wrap.go'') (cg_Pos g)) = 1
      \<longrightarrow> is_cgo_boilerplate (cg_Text g)"
    by (simp add: example_cache_def header_file_def is_cgo_boilerplate_def Let_def)
  have on_file: "\<forall>i\<in>set ?issues. FilePath i = ''cgo_wrap.go''"
    by (simp add: issue_at_def FilePath_def)
  from C6_cgo_boilerplate_not_generated[where c = example_cache and path = "''cgo_wrap.go''"
      and js = "[issue_at ''gen.go'' 1]" and issues = ?issues,
      OF contract refl path parses only_cgo on_file]
  have "\<not> file_is_generated example_ToLower (example_cache ''cgo_wrap.go'') ''cgo_wrap.go''"
    and "fst (Process example_ToLower ?issues
           (after_calls example_ToLower [issue_at ''gen.go'' 1]
              (NewAutogeneratedExclude example_cache))) = Inr ?issues"
    by blast+
  with contract comment_text show ?thesis by blast
qed

text \<open>
  C9: a successful \<^verbatim>\<open>Process\<close> call returns a subsequence of its input: the output issues
  are input issues, unchanged and in their original relative order. The call aborts on the
  first predicate error: when the issues before \<open>i\<close> are filtered without error and the
  predicate fails on \<open>i\<close>, the call returns that error and the instance as the failed
  evaluation left it, whatever issues follow.
\<close>

theorem C9_Process_returns_subsequence:
  "(fst (Process ToLower issues p) = Inr out \<longrightarrow> subseq out issues \<and> set out \<subseteq> set issues)
   \<and> (fst (Process ToLower pre p) = Inr kept
        \<and> fst (shouldPassIssue ToLower i (snd (Process ToLower pre p))) = Inl err
      \<longrightarrow> Process ToLower (pre @ i # post) p
            = (Inl err, snd (shouldPassIssue ToLower i (snd (Process ToLower pre p)))))"
proof (intro conjI impI)
  assume "fst (Process ToLower issues p) = Inr out"
  then obtain p' where "filterIssuesErr_loop issues (shouldPassIssue ToLower) [] p = (Inr out, p')"
    unfolding Process_def filterIssuesErr_def
    by (cases "filterIssuesErr_loop issues (shouldPassIssue ToLower) [] p") simp
  then have sub: "subseq out issues"
    using loop_subseq[of issues "shouldPassIssue ToLower" "[]" p out p'] by simp
  then show "subseq out issues" .
  from sub show "set out \<subseteq> set issues"
    by (auto dest: list_emb_set)
next
  assume "fst (Process ToLower pre p) = Inr kept
    \<and> fst (shouldPassIssue ToLower i (snd (Process ToLower pre p))) = Inl err"
  then show "Process ToLower (pre @ i # post) p
      = (Inl err, snd (shouldPassIssue ToLower i (snd (Process ToLower pre p))))"
    unfolding Process_def filterIssuesErr_def
    using loop_abort[of pre "shouldPassIssue ToLower" "[]" p kept i err post] by simp
qed

theorem C9_witness_order_and_abort:
  "fst (Process example_ToLower [issue_at ''gen.go'' 3, issue_at ''hand.go'' 5, issue_at ''cgo_wrap.go'' 8]
         (NewAutogeneratedExclude example_cache))
     = Inr [issue_at ''hand.go'' 5, issue_at ''cgo_wrap.go'' 8]
   \<and> subseq [issue_at ''hand.go'' 5, issue_at ''cgo_wrap.go'' 8]
        [issue_at ''gen.go'' 3, issue_at ''hand.go'' 5, issue_at ''cgo_wrap.go'' 8]
   \<and> fst (Process example_ToLower [issue_at ''hand.go'' 5] (NewAutogeneratedExclude example_cache))
     = Inr [issue_at ''hand.go'' 5]
   \<and> fst (shouldPassIssue example_ToLower (issue_at [] 6)
        (snd (Process example_ToLower [issue_at ''hand.go'' 5] (NewAutogeneratedExclude example_cache))))
     = Inl NoFilePathForIssue
   \<and> fst (Process example_ToLower ([issue_at ''hand.go'' 5] @ issue_at [] 6 # [issue_at ''gen.go'' 8])
        (NewAutogeneratedExclude example_cache))
     = Inl NoFilePathForIssue"
proof -
  let ?p = "NewAutogeneratedExclude example_cache"
  let ?issues = "[issue_at ''gen.go'' 3, issue_at ''hand.go'' 5, issue_at ''cgo_wrap.go'' 8]"
  let ?out = "[issue_at ''hand.go'' 5, issue_at ''cgo_wrap.go'' 8]"
  let ?pre = "[issue_at ''hand.go'' 5]"
  have out: "fst (Process example_ToLower ?issues ?p) = Inr ?out"
    by (simp add: eval_defs)
  have pre: "fst (Process example_ToLower ?pre ?p) = Inr ?pre"
    by (simp add: eval_defs)
  have fails: "fst (shouldPassIssue example_ToLower (issue_at [] 6) (snd (Process example_ToLower ?pre ?p))) = Inl NoFilePathForIssue"
    by (simp add: eval_defs)
  note sub = C9_Process_returns_subsequence[of example_ToLower ?issues ?p ?out ?pre ?pre "issue_at [] 6"
      NoFilePathForIssue "[issue_at ''gen.go'' 8]"]
  from sub out have 1: "subseq ?out ?issues" by blast
  from sub pre fails
  have "Process example_ToLower (?pre @ issue_at [] 6 # [issue_at ''gen.go'' 8]) ?p
      = (Inl NoFilePathForIssue, snd (shouldPassIssue example_ToLower (issue_at [] 6) (snd (Process example_ToLower ?pre ?p))))"
    by blast
  then have 2: "fst (Process example_ToLower (?pre @ issue_at [] 6 # [issue_at ''gen.go'' 8]) ?p)
      = Inl NoFilePathForIssue"
    by simp
  from out 1 pre fails 2 show ?thesis by blast
qed

end
